theory Spec2Isabelle
  imports Complex_Main
begin

section \<open>The functions of Go's package strings that the parsers call\<close>

text \<open>
  A Go string is modelled as the list of its characters. \<open>nil\<close> errors and results are
  written out: an \<open>error\<close> is its message text, and a function returning
  \<open>(*T, error)\<close> returns \<open>error + T\<close>.
\<close>

type_synonym error = string

text \<open>\<open>strings.Index(s, substr)\<close>: the position of the first occurrence of
  \<open>substr\<close> in \<open>s\<close>; Go's \<open>-1\<close> is \<open>None\<close>. The empty string occurs at 0.\<close>

fun strings_Index :: "string \<Rightarrow> string \<Rightarrow> nat option" where
  "strings_Index [] substr = (if substr = [] then Some 0 else None)"
| "strings_Index (c # s) substr =
     (if take (length substr) (c # s) = substr then Some 0
      else map_option Suc (strings_Index s substr))"

definition strings_Contains :: "string \<Rightarrow> string \<Rightarrow> bool" where
  "strings_Contains s substr = (strings_Index s substr \<noteq> None)"

text \<open>\<open>strings.Split(s, sep)\<close>, that is \<open>genSplit(s, sep, 0, -1)\<close>. With an empty
  separator the string is exploded into its characters, Go's UTF-8 sequences (no part
  at all for the empty string). Otherwise the loop cuts at the first occurrence of \<open>sep\<close> found by
  \<open>Index\<close> and goes on behind it, until there is none; the rest is the last part.\<close>

function strings_Split :: "string \<Rightarrow> string \<Rightarrow> string list" where
  "strings_Split s sep =
     (if sep = [] then map (\<lambda>c. [c]) s
      else case strings_Index s sep of
             None \<Rightarrow> [s]
           | Some m \<Rightarrow> take m s # strings_Split (drop (m + length sep) s) sep)"
  by pat_completeness auto

lemma strings_Index_bound:
  "strings_Index s sep = Some m \<Longrightarrow> m + length sep \<le> length s"
proof (induction s arbitrary: m)
  case Nil
  then show ?case by (simp split: if_splits)
next
  case (Cons c s)
  show ?case
  proof (cases "take (length sep) (c # s) = sep")
    case True
    have "length (take (length sep) (c # s)) \<le> length (c # s)"
      by simp
    with True have "length sep \<le> length (c # s)"
      by simp
    with True Cons.prems show ?thesis by simp
  next
    case False
    with Cons.prems obtain k where "strings_Index s sep = Some k" "m = Suc k"
      by auto
    with Cons.IH show ?thesis by fastforce
  qed
qed

termination strings_Split
proof (relation "measure (\<lambda>(s, sep). length s)")
  show "wf (measure (\<lambda>(s, sep). length s))" by simp
next
  fix s sep :: string and m :: nat
  assume ne: "sep \<noteq> []" and ix: "strings_Index s sep = Some m"
  from strings_Index_bound [OF ix] ne have "0 < length s \<and> 0 < m + length sep"
    by (cases sep; cases s) simp_all
  then show "((drop (m + length sep) s, sep), (s, sep)) \<in> measure (\<lambda>(s, sep). length s)"
    by simp
qed

declare strings_Split.simps [simp del]

text \<open>\<open>strings.Join(elems, sep)\<close>.\<close>

fun strings_Join :: "string list \<Rightarrow> string \<Rightarrow> string" where
  "strings_Join [] sep = []"
| "strings_Join [e] sep = e"
| "strings_Join (e # es) sep = e @ sep @ strings_Join es sep"

text \<open>\<open>strings.HasSuffix\<close> and \<open>strings.TrimSuffix\<close>.\<close>

definition strings_HasSuffix :: "string \<Rightarrow> string \<Rightarrow> bool" where
  "strings_HasSuffix s suffix =
     (length suffix \<le> length s \<and> drop (length s - length suffix) s = suffix)"

definition strings_TrimSuffix :: "string \<Rightarrow> string \<Rightarrow> string" where
  "strings_TrimSuffix s suffix =
     (if strings_HasSuffix s suffix then take (length s - length suffix) s else s)"

text \<open>\<open>strings.ReplaceAll(s, old, new)\<close>, that is \<open>Replace(s, old, new, -1)\<close>: nothing
  changes when \<open>old = new\<close>; an empty \<open>old\<close> matches before every character and at
  the end; otherwise the occurrences found by \<open>Index\<close> from left to right, each search
  starting behind the previous match, are replaced.\<close>

function replaceLoop :: "string \<Rightarrow> string \<Rightarrow> string \<Rightarrow> string" where
  "replaceLoop s old new =
     (if old = [] then s
      else case strings_Index s old of
             None \<Rightarrow> s
           | Some j \<Rightarrow> take j s @ new @ replaceLoop (drop (j + length old) s) old new)"
  by pat_completeness auto

termination replaceLoop
proof (relation "measure (\<lambda>(s, old, new). length s)")
  show "wf (measure (\<lambda>(s, old, new). length s))" by simp
next
  fix s old new :: string and j :: nat
  assume ne: "old \<noteq> []" and ix: "strings_Index s old = Some j"
  from strings_Index_bound [OF ix] ne have "0 < length s \<and> 0 < j + length old"
    by (cases old; cases s) simp_all
  then show "((drop (j + length old) s, old, new), (s, old, new))
      \<in> measure (\<lambda>(s, old, new). length s)"
    by simp
qed

declare replaceLoop.simps [simp del]

definition strings_ReplaceAll :: "string \<Rightarrow> string \<Rightarrow> string \<Rightarrow> string" where
  "strings_ReplaceAll s old new =
     (if old = new then s
      else if old = [] then new @ concat (map (\<lambda>c. c # new) s)
      else replaceLoop s old new)"

section \<open>Lesson 1 of the fundamentals course: delimiters, segments, escaping\<close>

text \<open>\<open>EDIFACTDelimiters\<close> (the same struct in lessons 1, 2 and 3): four Go strings.\<close>

record EDIFACTDelimiters =
  SegmentTerminator :: string
  DataElementSeparator :: string
  ComponentSeparator :: string
  ReleaseCharacter :: string

text \<open>The standard delimiters every \<open>main\<close> of the lessons sets up.\<close>

definition delimiters :: EDIFACTDelimiters where
  "delimiters =
     \<lparr>SegmentTerminator = [CHR 0x27], DataElementSeparator = ''+'',
      ComponentSeparator = '':'', ReleaseCharacter = ''?''\<rparr>"

record EDIFACTSegment =
  Tag :: string
  Elements :: "string list"
  Delimiters :: EDIFACTDelimiters

definition NewEDIFACTSegment :: "string \<Rightarrow> EDIFACTDelimiters \<Rightarrow> EDIFACTSegment" where
  "NewEDIFACTSegment tag ds = \<lparr>Tag = tag, Elements = [], Delimiters = ds\<rparr>"

definition AddElement :: "EDIFACTSegment \<Rightarrow> string \<Rightarrow> EDIFACTSegment" where
  "AddElement s element = s\<lparr>Elements := Elements s @ [element]\<rparr>"

definition AddEmptyElement :: "EDIFACTSegment \<Rightarrow> EDIFACTSegment" where
  "AddEmptyElement s = s\<lparr>Elements := Elements s @ [[]]\<rparr>"

definition ToString :: "EDIFACTSegment \<Rightarrow> string" where
  "ToString s =
     strings_Join (Tag s # Elements s) (DataElementSeparator (Delimiters s))
       @ SegmentTerminator (Delimiters s)"

text \<open>\<open>ParseSegment\<close>: trim the terminator, split at the element separator, fail on
  no part at all, else the first part is the tag and the loop appends the others to
  \<open>segment.Elements\<close>.\<close>

definition ParseSegment :: "string \<Rightarrow> EDIFACTDelimiters \<Rightarrow> error + EDIFACTSegment" where
  "ParseSegment segmentStr ds =
     (let segmentStr' = strings_TrimSuffix segmentStr (SegmentTerminator ds);
          parts = strings_Split segmentStr' (DataElementSeparator ds)
      in case parts of
           [] \<Rightarrow> Inl ''empty segment''
         | tag # rest \<Rightarrow>
             Inr (foldl (\<lambda>segment part. segment\<lparr>Elements := Elements segment @ [part]\<rparr>)
                    (NewEDIFACTSegment tag ds) rest))"

definition EscapeSpecialCharacters :: "string \<Rightarrow> EDIFACTDelimiters \<Rightarrow> string" where
  "EscapeSpecialCharacters data ds =
     (let result = data;
          result = strings_ReplaceAll result (ReleaseCharacter ds)
                     (ReleaseCharacter ds @ ReleaseCharacter ds);
          result = strings_ReplaceAll result (DataElementSeparator ds)
                     (ReleaseCharacter ds @ DataElementSeparator ds);
          result = strings_ReplaceAll result (ComponentSeparator ds)
                     (ReleaseCharacter ds @ ComponentSeparator ds);
          result = strings_ReplaceAll result (SegmentTerminator ds)
                     (ReleaseCharacter ds @ SegmentTerminator ds)
      in result)"

definition UnescapeSpecialCharacters :: "string \<Rightarrow> EDIFACTDelimiters \<Rightarrow> string" where
  "UnescapeSpecialCharacters data ds =
     (let result = data;
          result = strings_ReplaceAll result (ReleaseCharacter ds @ SegmentTerminator ds)
                     (SegmentTerminator ds);
          result = strings_ReplaceAll result (ReleaseCharacter ds @ ComponentSeparator ds)
                     (ComponentSeparator ds);
          result = strings_ReplaceAll result (ReleaseCharacter ds @ DataElementSeparator ds)
                     (DataElementSeparator ds);
          result = strings_ReplaceAll result (ReleaseCharacter ds @ ReleaseCharacter ds)
                     (ReleaseCharacter ds)
      in result)"

text \<open>The round trip the escaping is for: escape a data value, tokenize the escaped text
  as \<open>ParseSegment\<close> does, unescape every token (the tag and the elements).\<close>

definition escape_tokenize_unescape :: "string \<Rightarrow> EDIFACTDelimiters \<Rightarrow> error + string list" where
  "escape_tokenize_unescape s ds =
     (case ParseSegment (EscapeSpecialCharacters s ds) ds of
        Inl e \<Rightarrow> Inl e
      | Inr seg \<Rightarrow> Inr (map (\<lambda>t. UnescapeSpecialCharacters t ds) (Tag seg # Elements seg)))"

section \<open>Lesson 2 of the fundamentals course: segments with analysed elements\<close>

record EDIFACTElement =
  Position :: nat
  Value :: string
  IsEmpty :: bool
  IsComposite :: bool
  Components :: "string list"

record EDIFACTSegment_L2 =
  Tag_L2 :: string
  Elements_L2 :: "EDIFACTElement list"
  Delimiters_L2 :: EDIFACTDelimiters

definition NewEDIFACTSegment_L2 :: "string \<Rightarrow> EDIFACTDelimiters \<Rightarrow> EDIFACTSegment_L2" where
  "NewEDIFACTSegment_L2 tag ds = \<lparr>Tag_L2 = tag, Elements_L2 = [], Delimiters_L2 = ds\<rparr>"

text \<open>\<open>AddElement\<close>: the components stay \<open>nil\<close> (the empty list) unless the value
  contains the component separator.\<close>

definition AddElement_L2 :: "EDIFACTSegment_L2 \<Rightarrow> string \<Rightarrow> EDIFACTSegment_L2" where
  "AddElement_L2 s v =
     (let composite = strings_Contains v (ComponentSeparator (Delimiters_L2 s));
          element = \<lparr>Position = length (Elements_L2 s) + 1, Value = v, IsEmpty = (v = []),
                     IsComposite = composite,
                     Components = (if composite
                                   then strings_Split v (ComponentSeparator (Delimiters_L2 s))
                                   else [])\<rparr>
      in s\<lparr>Elements_L2 := Elements_L2 s @ [element]\<rparr>)"

definition ToString_L2 :: "EDIFACTSegment_L2 \<Rightarrow> string" where
  "ToString_L2 s =
     strings_Join (Tag_L2 s # map Value (Elements_L2 s)) (DataElementSeparator (Delimiters_L2 s))
       @ SegmentTerminator (Delimiters_L2 s)"

definition ParseSegment_L2 :: "string \<Rightarrow> EDIFACTDelimiters \<Rightarrow> error + EDIFACTSegment_L2" where
  "ParseSegment_L2 segmentStr ds =
     (let segmentStr' = strings_TrimSuffix segmentStr (SegmentTerminator ds);
          parts = strings_Split segmentStr' (DataElementSeparator ds)
      in case parts of
           [] \<Rightarrow> Inl ''empty segment''
         | tag # rest \<Rightarrow> Inr (foldl AddElement_L2 (NewEDIFACTSegment_L2 tag ds) rest))"

section \<open>Lesson 3 of the fundamentals course: composite elements\<close>

record CompositeElement =
  Components_L3 :: "string list"
  Qualifier :: string
  Value_L3 :: string
  Format :: string

definition ParseCompositeElement :: "string \<Rightarrow> EDIFACTDelimiters \<Rightarrow> CompositeElement" where
  "ParseCompositeElement elementStr ds =
     (let components = strings_Split elementStr (ComponentSeparator ds)
      in \<lparr>Components_L3 = components,
          Qualifier = (if length components \<ge> 1 then components ! 0 else []),
          Value_L3 = (if length components \<ge> 2 then components ! 1 else []),
          Format = (if length components \<ge> 3 then components ! 2 else [])\<rparr>)"

definition ToString_L3 :: "CompositeElement \<Rightarrow> EDIFACTDelimiters \<Rightarrow> string" where
  "ToString_L3 c ds = strings_Join (Components_L3 c) (ComponentSeparator ds)"

section \<open>Lesson 4 of the fundamentals course: parsing a whole message\<close>

record Segment_L4 =
  Tag_L4 :: string
  Elements_L4 :: "string list"
  Position_L4 :: nat

record SegmentGroup =
  Name :: string
  Segments_G :: "Segment_L4 list"
  Repeat :: int

record EDIFACTMessage_L4 =
  MessageType_L4 :: string
  Segments_L4 :: "Segment_L4 list"
  Groups_L4 :: "SegmentGroup list"
  RawContent_L4 :: string

text \<open>The body of the loop of \<open>ParseEDIFACTMessage\<close> over the pieces between segment
  terminators, \<open>i\<close> the index of the piece: an empty piece is skipped; the first part
  is the tag and the others the elements; a UNH segment with more than one element sets
  the message type to the first component of its second element.\<close>

definition parseStep_L4 :: "EDIFACTMessage_L4 \<Rightarrow> nat \<times> string \<Rightarrow> EDIFACTMessage_L4" where
  "parseStep_L4 message p =
     (case p of (i, segmentStr) \<Rightarrow>
        if segmentStr = [] then message
        else (case strings_Split segmentStr ''+'' of
               [] \<Rightarrow> message
             | tag # elems \<Rightarrow>
                 (let segment = \<lparr>Tag_L4 = tag, Elements_L4 = elems, Position_L4 = i\<rparr>;
                      message' = message\<lparr>Segments_L4 := Segments_L4 message @ [segment]\<rparr>
                  in (if tag = ''UNH'' \<and> length elems > 1
                      then (case strings_Split (elems ! 1) '':'' of
                              [] \<Rightarrow> message'
                            | t # ts \<Rightarrow> message'\<lparr>MessageType_L4 := t\<rparr>)
                      else message'))))"

definition ParseEDIFACTMessage_L4 :: "string \<Rightarrow> EDIFACTMessage_L4" where
  "ParseEDIFACTMessage_L4 rawContent =
     (let message = \<lparr>MessageType_L4 = [], Segments_L4 = [], Groups_L4 = [],
                      RawContent_L4 = rawContent\<rparr>;
          segments = strings_Split rawContent [CHR 0x27]
      in foldl parseStep_L4 message (enumerate 0 segments))"

section \<open>Lesson 6 of the fundamentals course: service segments\<close>

record Segment_L6 =
  Tag_L6 :: string
  Elements_L6 :: "string list"
  Position_L6 :: nat
  Raw :: string

record ServiceSegmentInfo =
  Tag_I :: string
  Elements_I :: "string list"
  Position_I :: nat
  Timestamp :: nat
  MessageType_I :: string
  ReferenceNumber :: string
  SegmentCount :: string
  SyntaxIdentifier :: string
  SenderID :: string
  ReceiverID :: string
  DateTime :: string
  ControlReference :: string
  MessageCount :: string
  Release :: string
  Version :: string

text \<open>\<open>extractServiceSegmentInfo\<close>. The clock read by \<open>time.Now()\<close> is the
  parameter \<open>now\<close>. The fields no branch sets keep Go's zero value, the empty string.\<close>

definition extractServiceSegmentInfo :: "nat \<Rightarrow> Segment_L6 \<Rightarrow> ServiceSegmentInfo" where
  "extractServiceSegmentInfo now segment =
     (let es = Elements_L6 segment;
          info = \<lparr>Tag_I = Tag_L6 segment, Elements_I = es, Position_I = Position_L6 segment,
                   Timestamp = now, MessageType_I = [], ReferenceNumber = [],
                   SegmentCount = [], SyntaxIdentifier = [], SenderID = [], ReceiverID = [],
                   DateTime = [], ControlReference = [], MessageCount = [], Release = [],
                   Version = []\<rparr>
      in if Tag_L6 segment = ''UNH'' then
           (let info = (if length es \<ge> 2 then
                          (let msgTypeParts = strings_Split (es ! 1) '':'';
                               info = (if length msgTypeParts \<ge> 1
                                       then info\<lparr>MessageType_I := msgTypeParts ! 0\<rparr>
                                       else info)
                           in if length msgTypeParts \<ge> 4
                              then info\<lparr>Release := msgTypeParts ! 2,
                                        Version := msgTypeParts ! 3\<rparr>
                              else info)
                        else info)
            in if length es \<ge> 1 then info\<lparr>ReferenceNumber := es ! 0\<rparr> else info)
         else if Tag_L6 segment = ''UNT'' then
           (let info = (if length es \<ge> 1 then info\<lparr>SegmentCount := es ! 0\<rparr> else info)
            in if length es \<ge> 2 then info\<lparr>ReferenceNumber := es ! 1\<rparr> else info)
         else if Tag_L6 segment = ''UNB'' then
           (let info = (if length es \<ge> 1 then info\<lparr>SyntaxIdentifier := es ! 0\<rparr> else info);
                info = (if length es \<ge> 3 then info\<lparr>SenderID := es ! 2\<rparr> else info);
                info = (if length es \<ge> 4 then info\<lparr>ReceiverID := es ! 3\<rparr> else info);
                info = (if length es \<ge> 5 then info\<lparr>DateTime := es ! 4\<rparr> else info)
            in if length es \<ge> 6 then info\<lparr>ControlReference := es ! 5\<rparr> else info)
         else if Tag_L6 segment = ''UNZ'' then
           (let info = (if length es \<ge> 1 then info\<lparr>MessageCount := es ! 0\<rparr> else info)
            in if length es \<ge> 2 then info\<lparr>ControlReference := es ! 1\<rparr> else info)
         else info)"

text \<open>\<open>ParseEDIFACTMessage\<close> of lesson 6 builds its segments as lesson 4 does and keeps
  the raw text of each, terminator added back.\<close>

record InterchangeInfo =
  SenderID_X :: string
  ReceiverID_X :: string
  Date_X :: string
  Time_X :: string
  RefNumber_X :: string
  MessageType_X :: string

record EDIFACTMessage_L6 =
  MessageType_L6 :: string
  Segments_L6 :: "Segment_L6 list"
  RawContent_L6 :: string
  Interchange :: "InterchangeInfo option"

definition parseStep_L6 :: "EDIFACTMessage_L6 \<Rightarrow> nat \<times> string \<Rightarrow> EDIFACTMessage_L6" where
  "parseStep_L6 message p =
     (case p of (i, segmentStr) \<Rightarrow>
        if segmentStr = [] then message
        else (case strings_Split segmentStr ''+'' of
               [] \<Rightarrow> message
             | tag # elems \<Rightarrow>
                 (let segment = \<lparr>Tag_L6 = tag, Elements_L6 = elems, Position_L6 = i,
                                  Raw = segmentStr @ [CHR 0x27]\<rparr>;
                      message' = message\<lparr>Segments_L6 := Segments_L6 message @ [segment]\<rparr>
                  in (if tag = ''UNH'' \<and> length elems > 1
                      then (case strings_Split (elems ! 1) '':'' of
                              [] \<Rightarrow> message'
                            | t # ts \<Rightarrow> message'\<lparr>MessageType_L6 := t\<rparr>)
                      else message'))))"

definition ParseEDIFACTMessage_L6 :: "string \<Rightarrow> EDIFACTMessage_L6" where
  "ParseEDIFACTMessage_L6 rawContent =
     (let message = \<lparr>MessageType_L6 = [], Segments_L6 = [], RawContent_L6 = rawContent,
                      Interchange = None\<rparr>;
          segments = strings_Split rawContent [CHR 0x27]
      in foldl parseStep_L6 message (enumerate 0 segments))"

section \<open>Lesson 2 of the advanced course: handlers and the message detector\<close>

record Segment_A2 =
  Tag_A2 :: string
  Elements_A2 :: "string list"

record EDIFACTMessage_A2 =
  MessageType_A2 :: string
  Segments_A2 :: "Segment_A2 list"
  RawContent_A2 :: string

text \<open>The interface \<open>MessageHandler\<close>: \<open>Process\<close> returns its error, \<open>None\<close> for
  \<open>nil\<close>. What a handler prints is not modelled.\<close>

record MessageHandler =
  Process :: "EDIFACTMessage_A2 \<Rightarrow> error option"
  GetMessageType :: string

text \<open>\<open>MessageDetector\<close>: a Go map from message type to handler, and the fallback.\<close>

record MessageDetector =
  handlers :: "string \<rightharpoonup> MessageHandler"
  fallback :: MessageHandler

definition GenericHandler :: MessageHandler where
  "GenericHandler = \<lparr>Process = (\<lambda>message. None), GetMessageType = ''GENERIC''\<rparr>"

definition NewMessageDetector :: MessageDetector where
  "NewMessageDetector = \<lparr>handlers = Map.empty, fallback = GenericHandler\<rparr>"

text \<open>\<open>RegisterHandler\<close> assigns \<open>md.handlers[msgType] = handler\<close>.\<close>

definition RegisterHandler :: "MessageDetector \<Rightarrow> string \<Rightarrow> MessageHandler \<Rightarrow> MessageDetector" where
  "RegisterHandler md msgType handler = md\<lparr>handlers := (handlers md)(msgType \<mapsto> handler)\<rparr>"

text \<open>\<open>DetectAndRoute\<close> returns the error of the one \<open>Process\<close> it calls; the model
  returns with it the handlers whose \<open>Process\<close> ran during the call, in order.\<close>

definition DetectAndRoute :: "MessageDetector \<Rightarrow> EDIFACTMessage_A2 \<Rightarrow> MessageHandler list \<times> error option" where
  "DetectAndRoute md message =
     (case handlers md (MessageType_A2 message) of
        Some handler \<Rightarrow> ([handler], Process handler message)
      | None \<Rightarrow> ([fallback md], Process (fallback md) message))"

text \<open>The business components of the invoice and order handlers.\<close>

record InvoiceItem =
  ProductCode :: string

record Invoice =
  Number :: string
  Date :: string
  Items :: "InvoiceItem list"

record Order =
  Number_O :: string
  Date_O :: string

record ProcessedInvoice =
  Number_PI :: string
  Total :: real

record ProcessedOrder =
  Number_PO :: string
  Status :: string

definition InvoiceValidator_Validate :: "Invoice \<Rightarrow> error option" where
  "InvoiceValidator_Validate invoice =
     (if Number invoice = [] then Some ''invoice number is required'' else None)"

definition InvoiceProcessor_Process :: "Invoice \<Rightarrow> ProcessedInvoice" where
  "InvoiceProcessor_Process invoice = \<lparr>Number_PI = Number invoice, Total = 100.50\<rparr>"

definition NotificationService_Notify :: "'a \<Rightarrow> error option" where
  "NotificationService_Notify result = None"

definition InvoiceRepository_Save :: "ProcessedInvoice \<Rightarrow> error option" where
  "InvoiceRepository_Save invoice = None"

definition OrderValidator_Validate :: "Order \<Rightarrow> error option" where
  "OrderValidator_Validate order =
     (if Number_O order = [] then Some ''order number is required'' else None)"

definition OrderProcessor_Process :: "Order \<Rightarrow> ProcessedOrder" where
  "OrderProcessor_Process order = \<lparr>Number_PO = Number_O order, Status = ''PROCESSED''\<rparr>"

definition OrderRepository_Save :: "ProcessedOrder \<Rightarrow> error option" where
  "OrderRepository_Save order = None"

text \<open>\<open>extractInvoice\<close> and \<open>extractOrder\<close>: one pass over the segments, a switch
  on the tag in each step.\<close>

definition extractInvoice_step :: "Invoice \<Rightarrow> Segment_A2 \<Rightarrow> Invoice" where
  "extractInvoice_step invoice segment =
     (let es = Elements_A2 segment
      in if Tag_A2 segment = ''BGM'' then
           (if length es > 1 then invoice\<lparr>Number := es ! 1\<rparr> else invoice)
         else if Tag_A2 segment = ''DTM'' then
           (if length es > 0
            then (let parts = strings_Split (es ! 0) '':''
                  in if length parts > 1 then invoice\<lparr>Date := parts ! 1\<rparr> else invoice)
            else invoice)
         else if Tag_A2 segment = ''LIN'' then
           (if length es > 2
            then (let parts = strings_Split (es ! 2) '':''
                  in if length parts > 0
                     then invoice\<lparr>Items := Items invoice @ [\<lparr>ProductCode = parts ! 0\<rparr>]\<rparr>
                     else invoice)
            else invoice)
         else invoice)"

definition extractInvoice :: "EDIFACTMessage_A2 \<Rightarrow> Invoice" where
  "extractInvoice message =
     foldl extractInvoice_step \<lparr>Number = [], Date = [], Items = []\<rparr> (Segments_A2 message)"

definition extractOrder_step :: "Order \<Rightarrow> Segment_A2 \<Rightarrow> Order" where
  "extractOrder_step order segment =
     (let es = Elements_A2 segment
      in if Tag_A2 segment = ''BGM'' then
           (if length es > 1 then order\<lparr>Number_O := es ! 1\<rparr> else order)
         else if Tag_A2 segment = ''DTM'' then
           (if length es > 0
            then (let parts = strings_Split (es ! 0) '':''
                  in if length parts > 1 then order\<lparr>Date_O := parts ! 1\<rparr> else order)
            else order)
         else order)"

definition extractOrder :: "EDIFACTMessage_A2 \<Rightarrow> Order" where
  "extractOrder message =
     foldl extractOrder_step \<lparr>Number_O = [], Date_O = []\<rparr> (Segments_A2 message)"

text \<open>\<open>Process\<close> of the two handlers: extract, validate, process, save, notify; an
  error of the validator or of the repository is wrapped in a new message.\<close>

definition InvoiceHandler_Process :: "EDIFACTMessage_A2 \<Rightarrow> error option" where
  "InvoiceHandler_Process message =
     (let invoice = extractInvoice message
      in case InvoiceValidator_Validate invoice of
           Some err \<Rightarrow> Some (''validation failed: '' @ err)
         | None \<Rightarrow>
             (let result = InvoiceProcessor_Process invoice
              in case InvoiceRepository_Save result of
                   Some err \<Rightarrow> Some (''failed to save: '' @ err)
                 | None \<Rightarrow> NotificationService_Notify result))"

definition InvoiceHandler :: MessageHandler where
  "InvoiceHandler = \<lparr>Process = InvoiceHandler_Process, GetMessageType = ''INVOIC''\<rparr>"

definition OrderHandler_Process :: "EDIFACTMessage_A2 \<Rightarrow> error option" where
  "OrderHandler_Process message =
     (let order = extractOrder message
      in case OrderValidator_Validate order of
           Some err \<Rightarrow> Some (''validation failed: '' @ err)
         | None \<Rightarrow>
             (let result = OrderProcessor_Process order
              in case OrderRepository_Save result of
                   Some err \<Rightarrow> Some (''failed to save: '' @ err)
                 | None \<Rightarrow> NotificationService_Notify result))"

definition OrderHandler :: MessageHandler where
  "OrderHandler = \<lparr>Process = OrderHandler_Process, GetMessageType = ''ORDERS''\<rparr>"

definition parseStep_A2 :: "EDIFACTMessage_A2 \<Rightarrow> string \<Rightarrow> EDIFACTMessage_A2" where
  "parseStep_A2 message segmentStr =
     (if segmentStr = [] then message
      else case strings_Split segmentStr ''+'' of
             [] \<Rightarrow> message
           | tag # elems \<Rightarrow>
               (let segment = \<lparr>Tag_A2 = tag, Elements_A2 = elems\<rparr>;
                    message' = message\<lparr>Segments_A2 := Segments_A2 message @ [segment]\<rparr>
                in (if tag = ''UNH'' \<and> length elems > 1
                    then (case strings_Split (elems ! 1) '':'' of
                            [] \<Rightarrow> message'
                          | t # ts \<Rightarrow> message'\<lparr>MessageType_A2 := t\<rparr>)
                    else message')))"

definition ParseEDIFACTMessage_A2 :: "string \<Rightarrow> EDIFACTMessage_A2" where
  "ParseEDIFACTMessage_A2 rawContent =
     (let message = \<lparr>MessageType_A2 = [], Segments_A2 = [], RawContent_A2 = rawContent\<rparr>;
          segments = strings_Split rawContent [CHR 0x27]
      in foldl parseStep_A2 message segments)"

section \<open>Auxiliary notions for stating and proving the properties\<close>

text \<open>A sequence of \<open>RegisterHandler\<close> calls, in the order of the list.\<close>

definition registerAll :: "MessageDetector \<Rightarrow> (string \<times> MessageHandler) list \<Rightarrow> MessageDetector" where
  "registerAll md regs = foldl (\<lambda>md (msgType, handler). RegisterHandler md msgType handler) md regs"

text \<open>The text in which every character of the set \<open>P\<close> is preceded by the release
  character \<open>r\<close>: the intermediate results of escaping and unescaping have this form.\<close>

definition released :: "char set \<Rightarrow> char \<Rightarrow> string \<Rightarrow> string" where
  "released P r s = concat (map (\<lambda>x. if x \<in> P then [r, x] else [x]) s)"

text \<open>Sample inputs: the segment of the empty-element example, message headers without
  a BGM segment, and the message of unknown type that \<open>main\<close> of lesson 2 routes.\<close>

definition nameAndAddress :: string where
  "nameAndAddress = ''NAD+BY+++NAME'' @ [CHR 0x27]"

definition invoiceHeaderOnly :: string where
  "invoiceHeaderOnly = ''UNH+1+INVOIC:D:97A:UN'' @ [CHR 0x27]"

definition ordersHeaderOnly :: string where
  "ordersHeaderOnly = ''UNH+1+ORDERS:D:97A:UN'' @ [CHR 0x27]"

definition unknownMessage :: string where
  "unknownMessage =
     ''UNH+1+UNKNOWN:D:97A:UN'' @ [CHR 0x27] @ ''BGM+999+TEST123+9'' @ [CHR 0x27]
       @ ''UNT+2+1'' @ [CHR 0x27]"

definition doubledRelease :: string where
  "doubledRelease = ''FTX+a??b'' @ [CHR 0x27]"

section \<open>Facts about the string functions\<close>

lemma strings_Index_at:
  "strings_Index s sep = Some m \<Longrightarrow> take (length sep) (drop m s) = sep"
proof (induction s arbitrary: m)
  case Nil
  then show ?case by (simp split: if_splits)
next
  case (Cons c s)
  show ?case
  proof (cases "take (length sep) (c # s) = sep")
    case True
    with Cons.prems show ?thesis by simp
  next
    case False
    with Cons.prems obtain k where "strings_Index s sep = Some k" "m = Suc k"
      by auto
    with Cons.IH show ?thesis by simp
  qed
qed

lemma strings_Index_char_None: "c \<notin> set s \<Longrightarrow> strings_Index s [c] = None"
  by (induction s) auto

lemma strings_Index_char_Some:
  "c \<notin> set a \<Longrightarrow> strings_Index (a @ c # b) [c] = Some (length a)"
  by (induction a) auto

lemma strings_Join_Cons:
  "strings_Join (e # es) sep = (if es = [] then e else e @ sep @ strings_Join es sep)"
  by (cases es) simp_all

lemma strings_Split_not_Nil:
  "sep \<noteq> [] \<Longrightarrow> strings_Split s sep \<noteq> []"
  by (subst strings_Split.simps) (simp split: option.split)

lemma strings_Split_empty_sep: "strings_Split s [] = map (\<lambda>c. [c]) s"
  by (subst strings_Split.simps) simp

lemma strings_Join_explode: "strings_Join (map (\<lambda>c. [c]) s) [] = s"
  by (induction s) (simp_all add: strings_Join_Cons)

text \<open>Joining the parts of a split with the separator gives the string back, whatever
  the separator.\<close>

lemma strings_Join_Split: "strings_Join (strings_Split s sep) sep = s"
proof (induction s sep rule: strings_Split.induct)
  case (1 s sep)
  show ?case
  proof (cases "sep = []")
    case True
    then show ?thesis by (simp add: strings_Split_empty_sep strings_Join_explode)
  next
    case ne: False
    show ?thesis
    proof (cases "strings_Index s sep")
      case None
      with ne show ?thesis by (subst strings_Split.simps) simp
    next
      case (Some m)
      let ?rest = "drop (m + length sep) s"
      have IH: "strings_Join (strings_Split ?rest sep) sep = ?rest"
        using "1.IH" [OF ne Some] .
      have "take m s @ (take (length sep) (drop m s) @ drop (length sep) (drop m s)) = s"
        by (simp only: append_take_drop_id)
      then have s: "take m s @ sep @ ?rest = s"
        using strings_Index_at [OF Some] by (simp add: add.commute)
      have "strings_Split s sep = take m s # strings_Split ?rest sep"
        using ne Some by (subst strings_Split.simps) simp
      then show ?thesis
        using IH s strings_Split_not_Nil [OF ne, of ?rest] by (simp add: strings_Join_Cons)
    qed
  qed
qed

lemma strings_Split_char_None: "c \<notin> set s \<Longrightarrow> strings_Split s [c] = [s]"
  by (subst strings_Split.simps) (simp add: strings_Index_char_None)

lemma strings_Split_char_Some:
  "c \<notin> set a \<Longrightarrow> strings_Split (a @ c # b) [c] = a # strings_Split b [c]"
  by (subst strings_Split.simps) (simp add: strings_Index_char_Some)

text \<open>With a separator of one character, splitting undoes joining parts that are free
  of it.\<close>

lemma strings_Split_Join_char:
  "c \<notin> set t \<Longrightarrow> (\<forall>e \<in> set es. c \<notin> set e) \<Longrightarrow>
   strings_Split (strings_Join (t # es) [c]) [c] = t # es"
proof (induction es arbitrary: t)
  case Nil
  then show ?case by (simp add: strings_Split_char_None)
next
  case (Cons e es)
  then show ?case
    by (simp add: strings_Split_char_Some del: strings_Join.simps(3) add: strings_Join_Cons)
qed

lemma strings_Split_terminators:
  "strings_Split (replicate n c) [c] = replicate (Suc n) []"
proof (induction n)
  case 0
  show ?case by (subst strings_Split.simps) simp
next
  case (Suc n)
  then show ?case by (subst strings_Split.simps) simp
qed

lemma strings_TrimSuffix_append: "strings_TrimSuffix (s @ suffix) suffix = s"
  by (simp add: strings_TrimSuffix_def strings_HasSuffix_def)

lemma strings_TrimSuffix_char_id:
  "s = [] \<or> last s \<noteq> t \<Longrightarrow> strings_TrimSuffix s [t] = s"
proof (cases "s = []")
  case True
  then show ?thesis by (simp add: strings_TrimSuffix_def strings_HasSuffix_def)
next
  case False
  assume "s = [] \<or> last s \<noteq> t"
  with False have "last s \<noteq> t" by simp
  moreover from False have "drop (length s - 1) s = [last s]"
    by (metis append_butlast_last_id append_eq_conv_conj length_butlast)
  ultimately show ?thesis
    by (simp add: strings_TrimSuffix_def strings_HasSuffix_def)
qed

lemma strings_TrimSuffix_char:
  "strings_TrimSuffix s [t] = (if s \<noteq> [] \<and> last s = t then butlast s else s)"
proof (cases "s = []")
  case True
  then show ?thesis by (simp add: strings_TrimSuffix_def strings_HasSuffix_def)
next
  case False
  then have "drop (length s - 1) s = [last s]"
    by (metis append_butlast_last_id append_eq_conv_conj length_butlast)
  moreover have "take (length s - 1) s = butlast s"
    by (simp add: butlast_conv_take)
  ultimately show ?thesis
    using False by (auto simp add: strings_TrimSuffix_def strings_HasSuffix_def Suc_leI)
qed

lemma strings_Split_two_parts:
  assumes "c \<in> set s"
  shows "length (strings_Split s [c]) \<ge> 2"
proof -
  from assms obtain a b where s: "s = a @ c # b" and a: "c \<notin> set a"
    by (auto dest: split_list_first)
  have "strings_Split b [c] \<noteq> []"
    by (rule strings_Split_not_Nil) simp
  then have "length (strings_Split b [c]) \<ge> 1"
    by (cases "strings_Split b [c]") simp_all
  with a show ?thesis
    by (simp add: s strings_Split_char_Some)
qed

lemma replaceLoop_Nil: "old \<noteq> [] \<Longrightarrow> replaceLoop [] old new = []"
  by (subst replaceLoop.simps) simp

text \<open>The replacement loop, read character by character.\<close>

lemma replaceLoop_Cons:
  assumes "old \<noteq> []"
  shows "replaceLoop (x # xs) old new =
           (if take (length old) (x # xs) = old
            then new @ replaceLoop (drop (length old) (x # xs)) old new
            else x # replaceLoop xs old new)"
proof (cases "take (length old) (x # xs) = old")
  case True
  then have "strings_Index (x # xs) old = Some 0" by simp
  with assms True show ?thesis
    by (subst replaceLoop.simps) simp
next
  case False
  show ?thesis
  proof (cases "strings_Index xs old")
    case None
    with False have "strings_Index (x # xs) old = None" by simp
    with assms None False show ?thesis
      by (subst replaceLoop.simps, subst (2) replaceLoop.simps) simp
  next
    case (Some k)
    with False have "strings_Index (x # xs) old = Some (Suc k)" by simp
    with assms Some False show ?thesis
      by (subst replaceLoop.simps, subst (2) replaceLoop.simps) simp
  qed
qed

lemma replace_char:
  "new \<noteq> [a] \<Longrightarrow>
   strings_ReplaceAll s [a] new = concat (map (\<lambda>x. if x = a then new else [x]) s)"
proof (induction s)
  case Nil
  then show ?case by (simp add: strings_ReplaceAll_def replaceLoop_Nil)
next
  case (Cons x s)
  then show ?case
    by (auto simp add: strings_ReplaceAll_def replaceLoop_Cons)
qed

section \<open>Facts about escaping\<close>

lemma released_Nil: "released P r [] = []"
  by (simp add: released_def)

lemma released_Cons:
  "released P r (x # s) = (if x \<in> P then r # x # released P r s else x # released P r s)"
  by (simp add: released_def)

lemma released_empty: "released {} r s = s"
  by (induction s) (simp_all add: released_Nil released_Cons)

lemma released_Nil_iff: "released P r s = [] \<longleftrightarrow> s = []"
  by (cases s) (simp_all add: released_Nil released_Cons)

lemma released_set: "x \<notin> set s \<Longrightarrow> x \<noteq> r \<Longrightarrow> x \<notin> set (released P r s)"
  by (induction s) (auto simp add: released_Nil released_Cons)

lemma released_last: "s \<noteq> [] \<Longrightarrow> last (released P r s) = last s"
proof (induction s)
  case Nil
  then show ?case by simp
next
  case (Cons x s)
  show ?case
  proof (cases "s = []")
    case True
    then show ?thesis by (simp add: released_Nil released_Cons)
  next
    case False
    then have "released P r s \<noteq> []"
      by (simp add: released_Nil_iff)
    with False Cons.IH show ?thesis
      by (simp add: released_Cons)
  qed
qed

lemma released_append: "released P r (a @ b) = released P r a @ released P r b"
  by (simp add: released_def)

lemma released_mem: "x \<in> set s \<Longrightarrow> x \<in> set (released P r s)"
  by (induction s) (auto simp add: released_Nil released_Cons)

lemma released_head_tail:
  assumes "a \<in> P" "a \<noteq> r" "sfx = [] \<or> sfx = [r]"
  shows "take 2 (r # (released P r s @ sfx)) \<noteq> [r, a]"
  using assms by (cases s) (auto simp add: released_Nil released_Cons)

text \<open>One pass of \<open>EscapeSpecialCharacters\<close> adds one character to the released set.\<close>

lemma escape_first: "strings_ReplaceAll s [r] [r, r] = released {r} r s"
proof -
  have "concat (map (\<lambda>x. if x = r then [r, r] else [x]) s) = released {r} r s"
    by (induction s) (simp_all add: released_Nil released_Cons)
  then show ?thesis by (simp add: replace_char)
qed

lemma escape_step:
  assumes "a \<notin> P" "a \<noteq> r"
  shows "strings_ReplaceAll (released P r s) [a] [r, a] = released (insert a P) r s"
proof -
  have "concat (map (\<lambda>x. if x = a then [r, a] else [x]) (released P r s))
          = released (insert a P) r s"
    using assms by (induction s) (auto simp add: released_Nil released_Cons)
  then show ?thesis by (simp add: replace_char)
qed

text \<open>One pass of \<open>UnescapeSpecialCharacters\<close> takes one character out of it. A
  release character that stands for itself is never followed by a character of the set
  other than the release character, so the pass finds no match across two pairs. A
  release character left alone at the end stays.\<close>

lemma unescape_step_tail:
  assumes "r \<in> P" "a \<in> P" "sfx = [] \<or> sfx = [r]"
  shows "strings_ReplaceAll (released P r s @ sfx) [r, a] [a] = released (P - {a}) r s @ sfx"
proof -
  have "replaceLoop (released P r s @ sfx) [r, a] [a] = released (P - {a}) r s @ sfx"
  proof (induction s)
    case Nil
    from assms(3) show ?case
      by (auto simp add: released_Nil replaceLoop_Nil replaceLoop_Cons)
  next
    case (Cons x s)
    show ?case
    proof (cases "x \<in> P")
      case False
      with assms have "x \<noteq> r" by auto
      with False Cons.IH show ?thesis
        by (simp add: released_Cons replaceLoop_Cons)
    next
      case inP: True
      show ?thesis
      proof (cases "x = a")
        case True
        with inP Cons.IH show ?thesis
          by (simp add: released_Cons replaceLoop_Cons)
      next
        case False
        have "replaceLoop (x # (released P r s @ sfx)) [r, a] [a]
                = x # replaceLoop (released P r s @ sfx) [r, a] [a]"
        proof (cases "x = r")
          case True
          with False assms have "take 2 (r # (released P r s @ sfx)) \<noteq> [r, a]"
            by (intro released_head_tail) auto
          with True show ?thesis
            by (simp add: replaceLoop_Cons)
        next
          case False
          then show ?thesis by (simp add: replaceLoop_Cons)
        qed
        with inP False Cons.IH show ?thesis
          by (simp add: released_Cons replaceLoop_Cons)
      qed
    qed
  qed
  then show ?thesis by (simp add: strings_ReplaceAll_def)
qed

lemma Escape_released:
  assumes "SegmentTerminator ds = [t]" "DataElementSeparator ds = [e]"
    "ComponentSeparator ds = [c]" "ReleaseCharacter ds = [r]" "distinct [t, e, c, r]"
  shows "EscapeSpecialCharacters s ds = released {t, c, e, r} r s"
proof -
  let ?s1 = "strings_ReplaceAll s [r] [r, r]"
  let ?s2 = "strings_ReplaceAll ?s1 [e] [r, e]"
  let ?s3 = "strings_ReplaceAll ?s2 [c] [r, c]"
  let ?s4 = "strings_ReplaceAll ?s3 [t] [r, t]"
  have 1: "?s1 = released {r} r s"
    by (rule escape_first)
  have 2: "?s2 = released {e, r} r s"
    using assms(5) by (simp only: 1) (rule escape_step; auto)
  have 3: "?s3 = released {c, e, r} r s"
    using assms(5) by (simp only: 2) (rule escape_step; auto)
  have 4: "?s4 = released {t, c, e, r} r s"
    using assms(5) by (simp only: 3) (rule escape_step; auto)
  have "EscapeSpecialCharacters s ds = ?s4"
    using assms(1-4) by (simp add: EscapeSpecialCharacters_def Let_def)
  with 4 show ?thesis by simp
qed

lemma Unescape_released_tail:
  assumes "SegmentTerminator ds = [t]" "DataElementSeparator ds = [e]"
    "ComponentSeparator ds = [c]" "ReleaseCharacter ds = [r]" "distinct [t, e, c, r]"
    and "sfx = [] \<or> sfx = [r]"
  shows "UnescapeSpecialCharacters (released {t, c, e, r} r s @ sfx) ds = s @ sfx"
proof -
  from assms(5) have 1: "{t, c, e, r} - {t} = {c, e, r}" by auto
  from assms(5) have 2: "{c, e, r} - {c} = {e, r}" by auto
  from assms(5) have 3: "{e, r} - {e} = {r}" by auto
  have 4: "{r} - {r} = {}" by simp
  show ?thesis
    using assms(1-4)
    by (simp add: UnescapeSpecialCharacters_def Let_def unescape_step_tail [OF _ _ assms(6)]
        1 2 3 4 released_empty)
qed

lemma Unescape_released:
  assumes "SegmentTerminator ds = [t]" "DataElementSeparator ds = [e]"
    "ComponentSeparator ds = [c]" "ReleaseCharacter ds = [r]" "distinct [t, e, c, r]"
  shows "UnescapeSpecialCharacters (released {t, c, e, r} r s) ds = s"
  using Unescape_released_tail [OF assms, of "[]" s] by simp

text \<open>Escaping and then unescaping a data value gives it back.\<close>

lemma Unescape_Escape:
  assumes "SegmentTerminator ds = [t]" "DataElementSeparator ds = [e]"
    "ComponentSeparator ds = [c]" "ReleaseCharacter ds = [r]" "distinct [t, e, c, r]"
  shows "UnescapeSpecialCharacters (EscapeSpecialCharacters s ds) ds = s"
  using assms by (simp only: Escape_released [OF assms] Unescape_released [OF assms])

section \<open>Facts about the parsers and the detector\<close>

lemma foldl_append_Elements:
  "foldl (\<lambda>segment part. segment\<lparr>Elements := Elements segment @ [part]\<rparr>) seg rest
     = seg\<lparr>Elements := Elements seg @ rest\<rparr>"
  by (induction rest arbitrary: seg) simp_all

lemma ParseSegment_parts:
  "ParseSegment s ds =
     (case strings_Split (strings_TrimSuffix s (SegmentTerminator ds)) (DataElementSeparator ds) of
        [] \<Rightarrow> Inl ''empty segment''
      | tag # rest \<Rightarrow> Inr \<lparr>Tag = tag, Elements = rest, Delimiters = ds\<rparr>)"
  by (simp add: ParseSegment_def Let_def foldl_append_Elements NewEDIFACTSegment_def
      split: list.split)

lemma ParseSegment_L2_parts:
  "ParseSegment_L2 s ds =
     (case strings_Split (strings_TrimSuffix s (SegmentTerminator ds)) (DataElementSeparator ds) of
        [] \<Rightarrow> Inl ''empty segment''
      | tag # rest \<Rightarrow> Inr (foldl AddElement_L2 (NewEDIFACTSegment_L2 tag ds) rest))"
  by (simp add: ParseSegment_L2_def Let_def)

lemma foldl_AddElement_L2:
  "Tag_L2 (foldl AddElement_L2 seg rest) = Tag_L2 seg \<and>
   Delimiters_L2 (foldl AddElement_L2 seg rest) = Delimiters_L2 seg \<and>
   map Value (Elements_L2 (foldl AddElement_L2 seg rest)) = map Value (Elements_L2 seg) @ rest"
  by (induction rest arbitrary: seg) (simp_all add: AddElement_L2_def Let_def)

lemma foldl_AddElement_L2_IsEmpty:
  "map IsEmpty (Elements_L2 (foldl AddElement_L2 seg rest))
     = map IsEmpty (Elements_L2 seg) @ map (\<lambda>v. v = []) rest"
  by (induction rest arbitrary: seg) (simp_all add: AddElement_L2_def Let_def)

lemma foldl_skip:
  assumes "\<And>m p. p \<in> set ps \<Longrightarrow> step m p = m"
  shows "foldl step message ps = message"
  using assms by (induction ps arbitrary: message) simp_all

lemma enumerate_empty_pieces:
  "p \<in> set (enumerate k (replicate n [])) \<Longrightarrow> snd p = []"
  by (auto simp add: in_set_enumerate_eq)

lemma registerAll_Nil: "registerAll md [] = md"
  by (simp add: registerAll_def)

lemma registerAll_Cons:
  "registerAll md ((t, h) # regs) = registerAll (RegisterHandler md t h) regs"
  by (simp add: registerAll_def)

lemma registerAll_fallback: "fallback (registerAll md regs) = fallback md"
  by (induction regs arbitrary: md)
    (auto simp add: registerAll_Nil registerAll_Cons RegisterHandler_def)

lemma registerAll_other:
  "t \<notin> fst ` set regs \<Longrightarrow> handlers (registerAll md regs) t = handlers md t"
  by (induction regs arbitrary: md)
    (auto simp add: registerAll_Nil registerAll_Cons RegisterHandler_def)

text \<open>The sample messages, parsed.\<close>

lemma orders_message_type:
  "MessageType_A2 (ParseEDIFACTMessage_A2 ordersHeaderOnly) = ''ORDERS''"
  by code_simp

lemma orders_message_number:
  "extractOrder (ParseEDIFACTMessage_A2 ordersHeaderOnly) = \<lparr>Number_O = [], Date_O = []\<rparr>"
  by code_simp

lemma unknown_message_type:
  "MessageType_A2 (ParseEDIFACTMessage_A2 unknownMessage) = ''UNKNOWN''"
  by code_simp

lemma invoice_message_type:
  "MessageType_A2 (ParseEDIFACTMessage_A2 invoiceHeaderOnly) = ''INVOIC''"
  by code_simp

lemma invoice_message_number:
  "extractInvoice (ParseEDIFACTMessage_A2 invoiceHeaderOnly)
     = \<lparr>Number = [], Date = [], Items = []\<rparr>"
  by code_simp

section \<open>The properties\<close>

subsection \<open>C1: escaping, tokenizing, unescaping\<close>

text \<open>
  Claim C1 says that for every string \<open>s\<close> containing a delimiter character, escaping
  \<open>s\<close>, tokenizing the escaped text as \<open>ParseSegment\<close> does and unescaping every token
  returns \<open>s\<close>, the tokenizer not splitting at a delimiter preceded by the escape
  character. \<open>ParseSegment\<close> splits with \<open>strings.Split\<close>, which knows no escape
  character, and trims a final terminator, escaped or not. What holds: for four distinct
  delimiter characters, the round trip returns the single token \<open>s\<close> exactly when
  \<open>s\<close> contains no element separator and does not end with the segment terminator.
\<close>

theorem escape_round_trip_exactly:
  assumes "SegmentTerminator ds = [t]" "DataElementSeparator ds = [e]"
    "ComponentSeparator ds = [c]" "ReleaseCharacter ds = [r]" "distinct [t, e, c, r]"
  shows "escape_tokenize_unescape s ds = Inr [s] \<longleftrightarrow> e \<notin> set s \<and> (s = [] \<or> last s \<noteq> t)"
proof -
  let ?P = "{t, c, e, r}"
  let ?E = "released ?P r s"
  have esc: "EscapeSpecialCharacters s ds = ?E"
    using assms by (rule Escape_released)
  have good: "escape_tokenize_unescape s ds = Inr [s]"
    if noe: "e \<notin> set s" and not: "s = [] \<or> last s \<noteq> t"
  proof -
    have "?E = [] \<or> last ?E \<noteq> t"
      using not by (auto simp add: released_Nil_iff released_last)
    then have trim: "strings_TrimSuffix ?E [t] = ?E"
      by (rule strings_TrimSuffix_char_id)
    have "e \<notin> set ?E"
      using assms(5) noe by (intro released_set) auto
    then have "strings_Split ?E [e] = [?E]"
      by (rule strings_Split_char_None)
    with trim have "ParseSegment ?E ds = Inr \<lparr>Tag = ?E, Elements = [], Delimiters = ds\<rparr>"
      using assms(1,2) by (simp add: ParseSegment_parts)
    moreover have "UnescapeSpecialCharacters ?E ds = s"
      using assms by (rule Unescape_released)
    ultimately show ?thesis
      by (simp add: escape_tokenize_unescape_def esc)
  qed
  have split_at_sep: "escape_tokenize_unescape s ds \<noteq> Inr [s]" if ine: "e \<in> set s"
  proof -
    let ?T = "strings_TrimSuffix ?E [t]"
    from ine have inE: "e \<in> set ?E" by (rule released_mem)
    have "e \<in> set ?T"
    proof (cases "?E \<noteq> [] \<and> last ?E = t")
      case True
      then have "?E = butlast ?E @ [t]" by (metis append_butlast_last_id)
      with inE assms(5) have "e \<in> set (butlast ?E)"
        by (metis Un_iff distinct_length_2_or_more empty_iff empty_set set_ConsD set_append)
      with True show ?thesis by (simp add: strings_TrimSuffix_char)
    next
      case False
      with inE show ?thesis by (auto simp add: strings_TrimSuffix_char)
    qed
    then have "length (strings_Split ?T [e]) \<ge> 2"
      by (rule strings_Split_two_parts)
    then obtain tag p rest where "strings_Split ?T [e] = tag # p # rest"
      by (cases "strings_Split ?T [e]"; cases "tl (strings_Split ?T [e])") auto
    then show ?thesis
      using assms(1,2) by (simp add: escape_tokenize_unescape_def esc ParseSegment_parts)
  qed
  have cut_terminator: "escape_tokenize_unescape s ds \<noteq> Inr [s]"
    if noe: "e \<notin> set s" and ends: "s \<noteq> []" "last s = t"
  proof -
    from ends have s: "s = butlast s @ [t]" by (metis append_butlast_last_id)
    let ?s' = "butlast s"
    have E: "?E = released ?P r ?s' @ [r, t]"
      by (subst s) (simp add: released_append released_Cons released_Nil)
    then have trim: "strings_TrimSuffix ?E [t] = released ?P r ?s' @ [r]"
      by (simp add: strings_TrimSuffix_char butlast_append)
    have "e \<notin> set ?s'" using noe by (auto dest: in_set_butlastD)
    then have "e \<notin> set (released ?P r ?s' @ [r])"
      using assms(5) by (auto dest: released_set [rotated -1])
    then have "strings_Split (released ?P r ?s' @ [r]) [e] = [released ?P r ?s' @ [r]]"
      by (rule strings_Split_char_None)
    with trim have "ParseSegment ?E ds
        = Inr \<lparr>Tag = released ?P r ?s' @ [r], Elements = [], Delimiters = ds\<rparr>"
      using assms(1,2) by (simp add: ParseSegment_parts)
    moreover have "UnescapeSpecialCharacters (released ?P r ?s' @ [r]) ds = ?s' @ [r]"
      using assms by (rule Unescape_released_tail) simp
    moreover have "?s' @ [r] \<noteq> s"
      using s assms(5) by (metis distinct_length_2_or_more last_snoc)
    ultimately show ?thesis
      by (simp add: escape_tokenize_unescape_def esc)
  qed
  from good split_at_sep cut_terminator show ?thesis by blast
qed


text \<open>An instance: a value with a component separator, a release character and a
  segment terminator inside.\<close>

theorem escape_round_trip_exactly_witness:
  "escape_tokenize_unescape (''a:?'' @ [CHR 0x27] @ ''b'') delimiters
     = Inr [''a:?'' @ [CHR 0x27] @ ''b'']"
  using escape_round_trip_exactly
    [of delimiters "CHR 0x27" "CHR ''+''" "CHR '':''" "CHR ''?''" "''a:?'' @ [CHR 0x27] @ ''b''"]
  by (simp add: delimiters_def)

text \<open>The value \<open>a+b\<close> is escaped to \<open>a?+b\<close>, which is split at the escaped
  separator into \<open>a?\<close> and \<open>b\<close>.\<close>

theorem escape_round_trip_counterexample:
  "EscapeSpecialCharacters ''a+b'' delimiters = ''a?+b'' \<and>
   escape_tokenize_unescape ''a+b'' delimiters = Inr [''a?'', ''b''] \<and>
   escape_tokenize_unescape ''a+b'' delimiters \<noteq> Inr [''a+b'']"
  by code_simp

subsection \<open>C2: two handlers registered for one message type\<close>

text \<open>
  Claim C2 says that of two handlers registered for the same message type the one
  registered first is invoked. The detector keeps its handlers in a map keyed by the
  message type, so the second registration replaces the first. What holds: when \<open>h1\<close>
  and then \<open>h2\<close> are registered for the type of the message, and later registrations are
  for other types, dispatch invokes \<open>h2\<close> and nothing else, and returns its result.
\<close>

theorem later_registration_wins:
  assumes "MessageType_A2 message = t" and "t \<notin> fst ` set later"
  shows "DetectAndRoute (registerAll (RegisterHandler (RegisterHandler md t h1) t h2) later) message
           = ([h2], Process h2 message)"
proof -
  let ?md = "RegisterHandler (RegisterHandler md t h1) t h2"
  have "handlers (registerAll ?md later) t = handlers ?md t"
    using assms(2) by (rule registerAll_other)
  also have "\<dots> = Some h2"
    by (simp add: RegisterHandler_def)
  finally show ?thesis
    using assms(1) by (simp add: DetectAndRoute_def)
qed

theorem later_registration_wins_witness:
  "DetectAndRoute
     (registerAll (RegisterHandler (RegisterHandler NewMessageDetector ''ORDERS'' InvoiceHandler)
                     ''ORDERS'' OrderHandler) [(''INVOIC'', InvoiceHandler)])
     (ParseEDIFACTMessage_A2 ordersHeaderOnly)
   = ([OrderHandler], Some ''validation failed: order number is required'')"
proof -
  let ?m = "ParseEDIFACTMessage_A2 ordersHeaderOnly"
  have "Process OrderHandler ?m = Some ''validation failed: order number is required''"
    by (simp add: OrderHandler_def OrderHandler_Process_def orders_message_number
        OrderValidator_Validate_def)
  with later_registration_wins [of ?m "''ORDERS''" "[(''INVOIC'', InvoiceHandler)]"
      NewMessageDetector InvoiceHandler OrderHandler] orders_message_type
  show ?thesis by simp
qed

text \<open>The invoice handler registered first and the order handler second, both for
  ORDERS: the order handler runs.\<close>

theorem first_registration_counterexample:
  "fst (DetectAndRoute
          (RegisterHandler (RegisterHandler NewMessageDetector ''ORDERS'' InvoiceHandler)
             ''ORDERS'' OrderHandler)
          (ParseEDIFACTMessage_A2 ordersHeaderOnly))
     = [OrderHandler] \<and>
   [OrderHandler] \<noteq> [InvoiceHandler]"
proof -
  have "GetMessageType OrderHandler \<noteq> GetMessageType InvoiceHandler"
    by (simp add: OrderHandler_def InvoiceHandler_def)
  then have "OrderHandler \<noteq> InvoiceHandler" by auto
  then show ?thesis
    by (simp add: DetectAndRoute_def RegisterHandler_def orders_message_type)
qed

subsection \<open>C3: the components of the message type descriptor\<close>

text \<open>
  Claim C3 says that from the UNH element \<open>INVOIC:D:97A:UN\<close> detection returns type
  INVOIC, release D, version 97A and agency UN. \<open>extractServiceSegmentInfo\<close> returns the
  type INVOIC, but the third component (97A) as the release and the fourth (UN) as the
  version; it has no field for the agency, and the second component (D) is dropped.
  \<open>ParseEDIFACTMessage\<close> extracts the type alone.
\<close>

theorem UNH_release_and_version_shifted:
  "map (\<lambda>info. (MessageType_I info, Release info, Version info))
     (map (extractServiceSegmentInfo now) (Segments_L6 (ParseEDIFACTMessage_L6 invoiceHeaderOnly)))
     = [(''INVOIC'', ''97A'', ''UN'')] \<and>
   MessageType_L6 (ParseEDIFACTMessage_L6 invoiceHeaderOnly) = ''INVOIC'' \<and>
   MessageType_L4 (ParseEDIFACTMessage_L4 invoiceHeaderOnly) = ''INVOIC''"
proof -
  have parts: "strings_Split ''INVOIC:D:97A:UN'' '':'' = [''INVOIC'', ''D'', ''97A'', ''UN'']"
    by code_simp
  have segs: "Segments_L6 (ParseEDIFACTMessage_L6 invoiceHeaderOnly)
     = [\<lparr>Tag_L6 = ''UNH'', Elements_L6 = [''1'', ''INVOIC:D:97A:UN''], Position_L6 = 0,
         Raw = invoiceHeaderOnly\<rparr>]"
    by code_simp
  have ty6: "MessageType_L6 (ParseEDIFACTMessage_L6 invoiceHeaderOnly) = ''INVOIC''"
    by code_simp
  have ty4: "MessageType_L4 (ParseEDIFACTMessage_L4 invoiceHeaderOnly) = ''INVOIC''"
    by code_simp
  show ?thesis
    by (simp add: segs ty4 ty6 extractServiceSegmentInfo_def Let_def parts)
qed

subsection \<open>C4: no handler registered for the type\<close>

text \<open>
  Claim C4: when no handler is registered for the type of the message (also when none is
  registered at all), dispatch returns no error: the fallback of a detector made by
  \<open>NewMessageDetector\<close> is the generic handler, which is the only handler invoked and
  returns \<open>nil\<close> on every message.
\<close>

theorem unregistered_type_falls_back:
  assumes "MessageType_A2 message \<notin> fst ` set regs"
  shows "DetectAndRoute (registerAll NewMessageDetector regs) message = ([GenericHandler], None)
         \<and> Process GenericHandler message' = None"
proof -
  let ?md = "registerAll NewMessageDetector regs"
  have "handlers ?md (MessageType_A2 message) = handlers NewMessageDetector (MessageType_A2 message)"
    using assms by (rule registerAll_other)
  then have none: "handlers ?md (MessageType_A2 message) = None"
    by (simp add: NewMessageDetector_def)
  have fb: "fallback ?md = GenericHandler"
    by (simp add: registerAll_fallback NewMessageDetector_def)
  have ok: "Process GenericHandler m = None" for m
    by (simp add: GenericHandler_def)
  from none fb ok show ?thesis
    by (simp add: DetectAndRoute_def)
qed

text \<open>The message of unknown type of lesson 2, with the two handlers of \<open>main\<close>
  registered and with none.\<close>

theorem unregistered_type_falls_back_witness:
  "DetectAndRoute (registerAll NewMessageDetector
       [(''INVOIC'', InvoiceHandler), (''ORDERS'', OrderHandler)])
     (ParseEDIFACTMessage_A2 unknownMessage) = ([GenericHandler], None) \<and>
   DetectAndRoute (registerAll NewMessageDetector [])
     (ParseEDIFACTMessage_A2 unknownMessage) = ([GenericHandler], None)"
  using
    unregistered_type_falls_back [of "ParseEDIFACTMessage_A2 unknownMessage"
      "[(''INVOIC'', InvoiceHandler), (''ORDERS'', OrderHandler)]"]
    unregistered_type_falls_back [of "ParseEDIFACTMessage_A2 unknownMessage" "[]"]
  by (simp add: unknown_message_type)

subsection \<open>C5: empty elements are kept\<close>

text \<open>
  Claim C5: parsing \<open>NAD+BY+++NAME'\<close> with the default delimiters gives the tag NAD and
  exactly the four elements BY, empty, empty, NAME, by \<open>ParseSegment\<close> and as a segment
  of \<open>ParseEDIFACTMessage\<close>. In general, with an element separator of one character,
  parsing a tag and any list of elements free of the separator, joined by it and
  terminated, gives back the tag and every element in order, the empty ones too.
\<close>

theorem empty_elements_preserved:
  "ParseSegment nameAndAddress delimiters
     = Inr \<lparr>Tag = ''NAD'', Elements = [''BY'', [], [], ''NAME''], Delimiters = delimiters\<rparr> \<and>
   map (\<lambda>seg. (Tag_L4 seg, Elements_L4 seg)) (Segments_L4 (ParseEDIFACTMessage_L4 nameAndAddress))
     = [(''NAD'', [''BY'', [], [], ''NAME''])] \<and>
   (DataElementSeparator ds = [c] \<longrightarrow> c \<notin> set tag \<longrightarrow> (\<forall>e \<in> set es. c \<notin> set e) \<longrightarrow>
      ParseSegment (strings_Join (tag # es) [c] @ SegmentTerminator ds) ds
        = Inr \<lparr>Tag = tag, Elements = es, Delimiters = ds\<rparr> \<and>
      (\<exists>seg. ParseSegment_L2 (strings_Join (tag # es) [c] @ SegmentTerminator ds) ds = Inr seg \<and>
             Tag_L2 seg = tag \<and> map Value (Elements_L2 seg) = es \<and>
             map IsEmpty (Elements_L2 seg) = map (\<lambda>v. v = []) es))"
proof -
  have nad: "ParseSegment nameAndAddress delimiters
     = Inr \<lparr>Tag = ''NAD'', Elements = [''BY'', [], [], ''NAME''], Delimiters = delimiters\<rparr>"
    by code_simp
  have msg: "map (\<lambda>seg. (Tag_L4 seg, Elements_L4 seg))
       (Segments_L4 (ParseEDIFACTMessage_L4 nameAndAddress))
     = [(''NAD'', [''BY'', [], [], ''NAME''])]"
    by code_simp
  have general: "ParseSegment (strings_Join (tag # es) [c] @ SegmentTerminator ds) ds
        = Inr \<lparr>Tag = tag, Elements = es, Delimiters = ds\<rparr> \<and>
      (\<exists>seg. ParseSegment_L2 (strings_Join (tag # es) [c] @ SegmentTerminator ds) ds = Inr seg \<and>
             Tag_L2 seg = tag \<and> map Value (Elements_L2 seg) = es \<and>
             map IsEmpty (Elements_L2 seg) = map (\<lambda>v. v = []) es)"
    if sep: "DataElementSeparator ds = [c]" and tag: "c \<notin> set tag"
      and es: "\<forall>e \<in> set es. c \<notin> set e"
  proof -
    have parts: "strings_Split (strings_TrimSuffix (strings_Join (tag # es) [c]
        @ SegmentTerminator ds) (SegmentTerminator ds)) (DataElementSeparator ds) = tag # es"
      using tag es by (simp add: strings_TrimSuffix_append sep strings_Split_Join_char)
    have 1: "ParseSegment (strings_Join (tag # es) [c] @ SegmentTerminator ds) ds
        = Inr \<lparr>Tag = tag, Elements = es, Delimiters = ds\<rparr>"
      by (simp only: ParseSegment_parts parts list.case)
    let ?seg = "foldl AddElement_L2 (NewEDIFACTSegment_L2 tag ds) es"
    have 2: "ParseSegment_L2 (strings_Join (tag # es) [c] @ SegmentTerminator ds) ds = Inr ?seg"
      by (simp only: ParseSegment_L2_parts parts list.case)
    have 3: "Tag_L2 ?seg = tag \<and> map Value (Elements_L2 ?seg) = es"
      using foldl_AddElement_L2 [of "NewEDIFACTSegment_L2 tag ds" es]
      by (simp add: NewEDIFACTSegment_L2_def)
    have 4: "map IsEmpty (Elements_L2 ?seg) = map (\<lambda>v. v = []) es"
      by (simp add: foldl_AddElement_L2_IsEmpty NewEDIFACTSegment_L2_def)
    from 1 2 3 4 show ?thesis by blast
  qed
  from nad msg general show ?thesis by blast
qed

text \<open>An instance of the general part: a line item with an empty second element.\<close>

theorem empty_elements_preserved_witness:
  "ParseSegment (strings_Join [''LIN'', ''1'', [], ''4000862141404:EN''] ''+'' @ [CHR 0x27]) delimiters
     = Inr \<lparr>Tag = ''LIN'', Elements = [''1'', [], ''4000862141404:EN''], Delimiters = delimiters\<rparr>"
proof -
  have "DataElementSeparator delimiters = ''+''" "SegmentTerminator delimiters = [CHR 0x27]"
    by (simp_all add: delimiters_def)
  moreover have "CHR ''+'' \<notin> set ''LIN''"
    "\<forall>e \<in> set [''1'', [], ''4000862141404:EN'']. CHR ''+'' \<notin> set e"
    by simp_all
  ultimately show ?thesis
    using empty_elements_preserved [of delimiters "CHR ''+''" "''LIN''"
        "[''1'', [], ''4000862141404:EN'']"]
    by simp
qed

subsection \<open>C6: a doubled release character in a token\<close>

text \<open>
  Claim C6 says that the tokenizer unescapes before it stores a token, so that \<open>??\<close> in
  the raw segment is stored as \<open>?\<close>. \<open>ParseSegment\<close> never unescapes. What holds: it
  stores every token as it stands in the raw text: the tag and the element values of
  the segment it returns, joined by the element separator, are the raw segment without
  its terminator, so a doubled release character stays doubled in the element value.
\<close>

theorem ParseSegment_stores_tokens_verbatim:
  "(ParseSegment s ds = Inr seg \<longrightarrow>
      strings_Join (Tag seg # Elements seg) (DataElementSeparator ds)
        = strings_TrimSuffix s (SegmentTerminator ds)) \<and>
   (ParseSegment_L2 s ds = Inr seg2 \<longrightarrow>
      strings_Join (Tag_L2 seg2 # map Value (Elements_L2 seg2)) (DataElementSeparator ds)
        = strings_TrimSuffix s (SegmentTerminator ds))"
proof -
  let ?trimmed = "strings_TrimSuffix s (SegmentTerminator ds)"
  let ?sep = "DataElementSeparator ds"
  have join: "strings_Join (strings_Split ?trimmed ?sep) ?sep = ?trimmed"
    by (rule strings_Join_Split)
  have "strings_Join (Tag seg # Elements seg) ?sep = ?trimmed" if "ParseSegment s ds = Inr seg"
    using that join by (auto simp add: ParseSegment_parts split: list.splits)
  moreover
  have "strings_Join (Tag_L2 seg2 # map Value (Elements_L2 seg2)) ?sep = ?trimmed"
    if "ParseSegment_L2 s ds = Inr seg2"
  proof -
    from that obtain tag rest where parts: "strings_Split ?trimmed ?sep = tag # rest"
      and seg2: "seg2 = foldl AddElement_L2 (NewEDIFACTSegment_L2 tag ds) rest"
      by (auto simp add: ParseSegment_L2_parts split: list.splits)
    from foldl_AddElement_L2 [of "NewEDIFACTSegment_L2 tag ds" rest]
    have "Tag_L2 seg2 = tag" "map Value (Elements_L2 seg2) = rest"
      by (simp_all add: seg2 NewEDIFACTSegment_L2_def)
    with join parts show ?thesis by simp
  qed
  ultimately show ?thesis by blast
qed

theorem ParseSegment_stores_tokens_verbatim_witness:
  "ParseSegment doubledRelease delimiters
     = Inr \<lparr>Tag = ''FTX'', Elements = [''a??b''], Delimiters = delimiters\<rparr> \<and>
   strings_Join [''FTX'', ''a??b''] ''+'' = ''FTX+a??b''"
proof -
  let ?seg = "\<lparr>Tag = ''FTX'', Elements = [''a??b''], Delimiters = delimiters\<rparr>"
  have p: "ParseSegment doubledRelease delimiters = Inr ?seg"
    by code_simp
  with ParseSegment_stores_tokens_verbatim [of doubledRelease delimiters ?seg]
  have "strings_Join (Tag ?seg # Elements ?seg) (DataElementSeparator delimiters)
          = strings_TrimSuffix doubledRelease (SegmentTerminator delimiters)"
    by blast
  also have "\<dots> = ''FTX+a??b''"
    by code_simp
  finally have "strings_Join [''FTX'', ''a??b''] ''+'' = ''FTX+a??b''"
    by (simp add: delimiters_def)
  with p show ?thesis by blast
qed

text \<open>The raw segment \<open>FTX+a??b'\<close>: the element is stored as \<open>a??b\<close>, not as
  \<open>a?b\<close>, by both parsers.\<close>

theorem doubled_escape_counterexample:
  "ParseSegment doubledRelease delimiters
     = Inr \<lparr>Tag = ''FTX'', Elements = [''a??b''], Delimiters = delimiters\<rparr> \<and>
   ParseSegment doubledRelease delimiters
     \<noteq> Inr \<lparr>Tag = ''FTX'', Elements = [''a?b''], Delimiters = delimiters\<rparr> \<and>
   map_sum id (\<lambda>seg. map Value (Elements_L2 seg)) (ParseSegment_L2 doubledRelease delimiters)
     = Inr [''a??b'']"
  by code_simp

subsection \<open>C7: the empty input\<close>

text \<open>
  Claim C7 says that tokenizing the empty raw input fails with the syntax error
  "empty message". \<open>ParseEDIFACTMessage\<close> has no error result and skips every empty
  piece between terminators. What holds: on the empty input, and on any input made of
  segment terminators only, it returns a message with no segment and an empty message
  type, in each of the three lessons that define it.
\<close>

theorem empty_input_parses_to_no_segments:
  "ParseEDIFACTMessage_L4 (replicate n (CHR 0x27))
     = \<lparr>MessageType_L4 = [], Segments_L4 = [], Groups_L4 = [],
        RawContent_L4 = replicate n (CHR 0x27)\<rparr> \<and>
   ParseEDIFACTMessage_A2 (replicate n (CHR 0x27))
     = \<lparr>MessageType_A2 = [], Segments_A2 = [], RawContent_A2 = replicate n (CHR 0x27)\<rparr> \<and>
   ParseEDIFACTMessage_L6 (replicate n (CHR 0x27))
     = \<lparr>MessageType_L6 = [], Segments_L6 = [], RawContent_L6 = replicate n (CHR 0x27),
        Interchange = None\<rparr>"
proof -
  let ?pieces = "replicate (Suc n) ([] :: string)"
  have split: "strings_Split (replicate n (CHR 0x27)) [CHR 0x27] = ?pieces"
    by (rule strings_Split_terminators)
  have "foldl parseStep_L4 m (enumerate 0 ?pieces) = m" for m
    by (rule foldl_skip) (auto simp add: parseStep_L4_def dest: enumerate_empty_pieces)
  moreover have "foldl parseStep_A2 m ?pieces = m" for m
    by (rule foldl_skip) (auto simp add: parseStep_A2_def)
  moreover have "foldl parseStep_L6 m (enumerate 0 ?pieces) = m" for m
    by (rule foldl_skip) (auto simp add: parseStep_L6_def dest: enumerate_empty_pieces)
  ultimately show ?thesis
    by (simp only: ParseEDIFACTMessage_L4_def ParseEDIFACTMessage_A2_def
        ParseEDIFACTMessage_L6_def Let_def split)
qed

theorem empty_input_parses_to_no_segments_witness:
  "ParseEDIFACTMessage_L4 [CHR 0x27, CHR 0x27]
     = \<lparr>MessageType_L4 = [], Segments_L4 = [], Groups_L4 = [],
        RawContent_L4 = [CHR 0x27, CHR 0x27]\<rparr>"
  using empty_input_parses_to_no_segments [of 2]
  by (simp add: numeral_2_eq_2)

text \<open>The empty input itself: a message without segments comes back.\<close>

theorem empty_message_counterexample:
  "ParseEDIFACTMessage_L4 []
     = \<lparr>MessageType_L4 = [], Segments_L4 = [], Groups_L4 = [], RawContent_L4 = []\<rparr> \<and>
   ParseEDIFACTMessage_A2 []
     = \<lparr>MessageType_A2 = [], Segments_A2 = [], RawContent_A2 = []\<rparr>"
  by code_simp

subsection \<open>C8: the error of the selected handler\<close>

text \<open>
  Claim C8: when the handler registered for the type of the message returns an error,
  dispatch returns that very error, and neither another handler nor the fallback is
  invoked.
\<close>

theorem handler_error_propagates:
  assumes "handlers md (MessageType_A2 message) = Some h" and "Process h message = Some err"
  shows "DetectAndRoute md message = ([h], Some err)"
  using assms by (simp add: DetectAndRoute_def)

text \<open>An invoice message without a BGM segment: the invoice handler rejects it.\<close>

theorem handler_error_propagates_witness:
  "DetectAndRoute (RegisterHandler NewMessageDetector ''INVOIC'' InvoiceHandler)
     (ParseEDIFACTMessage_A2 invoiceHeaderOnly)
   = ([InvoiceHandler], Some ''validation failed: invoice number is required'')"
proof -
  let ?m = "ParseEDIFACTMessage_A2 invoiceHeaderOnly"
  let ?md = "RegisterHandler NewMessageDetector ''INVOIC'' InvoiceHandler"
  have h: "handlers ?md (MessageType_A2 ?m) = Some InvoiceHandler"
    by (simp add: RegisterHandler_def invoice_message_type)
  have e: "Process InvoiceHandler ?m = Some ''validation failed: invoice number is required''"
    by (simp add: InvoiceHandler_def InvoiceHandler_Process_def invoice_message_number
        InvoiceValidator_Validate_def)
  from h e show ?thesis
    by (rule handler_error_propagates)
qed

subsection \<open>C9: \<open>ParseSegment\<close> and its error branch\<close>

text \<open>
  Claim C9 says that \<open>ParseSegment\<close> returns a segment and no error for every input and
  every delimiter configuration, since a split yields at least one part. The delimiters
  are Go strings, and with an empty separator \<open>strings.Split\<close> of the empty string
  yields no part. What holds, for \<open>ParseSegment\<close> of lesson 1 and of lesson 2: it returns
  a segment and no error for every input and every configuration, except when the element
  separator is the empty string and the input without its terminator is empty; then it
  returns the error "empty segment".
\<close>

theorem ParseSegment_fails_only_without_parts:
  "(if DataElementSeparator ds = [] \<and> strings_TrimSuffix s (SegmentTerminator ds) = []
    then ParseSegment s ds = Inl ''empty segment'' \<and> ParseSegment_L2 s ds = Inl ''empty segment''
    else (\<exists>seg. ParseSegment s ds = Inr seg) \<and> (\<exists>seg. ParseSegment_L2 s ds = Inr seg))"
proof -
  let ?trimmed = "strings_TrimSuffix s (SegmentTerminator ds)"
  let ?parts = "strings_Split ?trimmed (DataElementSeparator ds)"
  show ?thesis
  proof (cases "DataElementSeparator ds = [] \<and> ?trimmed = []")
    case True
    then have "?parts = []"
      by (simp add: strings_Split_empty_sep)
    then have err: "ParseSegment s ds = Inl ''empty segment'' \<and>
        ParseSegment_L2 s ds = Inl ''empty segment''"
      by (simp add: ParseSegment_parts ParseSegment_L2_parts)
    show ?thesis
      by (subst if_P [OF True]) (rule err)
  next
    case False
    have "?parts \<noteq> []"
    proof (cases "DataElementSeparator ds = []")
      case True
      with False show ?thesis by (simp add: strings_Split_empty_sep)
    next
      case False
      then show ?thesis by (rule strings_Split_not_Nil)
    qed
    then obtain tag rest where "?parts = tag # rest"
      by (cases ?parts) auto
    then have ok: "(\<exists>seg. ParseSegment s ds = Inr seg) \<and> (\<exists>seg. ParseSegment_L2 s ds = Inr seg)"
      by (simp add: ParseSegment_parts ParseSegment_L2_parts)
    show ?thesis
      by (subst if_not_P [OF False]) (rule ok)
  qed
qed

text \<open>The empty input with the standard delimiters: a segment with an empty tag.\<close>

theorem ParseSegment_fails_only_without_parts_witness:
  "(\<exists>seg. ParseSegment [] delimiters = Inr seg) \<and> (\<exists>seg. ParseSegment_L2 [] delimiters = Inr seg)"
  using ParseSegment_fails_only_without_parts [of delimiters "[]"] by (simp add: delimiters_def)

text \<open>The zero value of the delimiter struct (four empty strings) and the empty input:
  the error branch is taken.\<close>

theorem ParseSegment_error_counterexample:
  "ParseSegment [] \<lparr>SegmentTerminator = [], DataElementSeparator = [],
      ComponentSeparator = [], ReleaseCharacter = []\<rparr> = Inl ''empty segment'' \<and>
   ParseSegment_L2 [] \<lparr>SegmentTerminator = [], DataElementSeparator = [],
      ComponentSeparator = [], ReleaseCharacter = []\<rparr> = Inl ''empty segment''"
  by (simp add: ParseSegment_parts ParseSegment_L2_parts strings_Split_empty_sep
      strings_TrimSuffix_def strings_HasSuffix_def)

subsection \<open>C10: a composite element and its string\<close>

text \<open>
  Claim C10: for every string and every delimiter configuration, parsing the string as a
  composite element and converting the result back with \<open>ToString\<close> gives the string,
  whatever empty components it has.
\<close>

theorem composite_round_trip: "ToString_L3 (ParseCompositeElement s ds) ds = s"
  by (simp add: ToString_L3_def ParseCompositeElement_def Let_def strings_Join_Split)

theorem composite_round_trip_witness:
  "ToString_L3 (ParseCompositeElement '':137::102:'' delimiters) delimiters = '':137::102:''"
  using composite_round_trip [of "'':137::102:''" delimiters] by simp

end
